theory Spec2Isabelle
  imports
    Complex_Main
    "HOL-Library.AList"
    "HOL-Library.Char_ord"
    "HOL-Library.List_Lexorder"
    "HOL-Library.Multiset"
    "HOL-Library.Product_Lexorder"
    "HOL-Library.Sublist"
begin

section \<open>Text\<close>

text \<open>
  A Python string is the list of its Unicode code points, each an integer, and the order
  on strings is the lexicographic order on code points. White space is the set of code
  points that \<open>str.isspace\<close> accepts. The other built-ins that read the Unicode character database
  (\<open>str.isalpha\<close>, \<open>str.isdigit\<close>, \<open>str.upper\<close>, \<open>str.lower\<close>) and \<open>int\<close> are not part
  of the repository; they are parameters of the model, collected in a record.
\<close>

type_synonym pystr = "int list"

definition str :: "string \<Rightarrow> pystr" where
  \<comment> \<open>a string literal\<close>
  "str s = map of_char s"

definition isspace :: "int \<Rightarrow> bool" where
  "isspace c =
     (c \<in> {9, 10, 11, 12, 13, 28, 29, 30, 31, 32, 133, 160, 5760}
      \<or> (8192 \<le> c \<and> c \<le> 8202)
      \<or> c \<in> {8232, 8233, 8239, 8287, 12288})"

record builtins =
  alpha :: "int \<Rightarrow> bool"
  digit :: "int \<Rightarrow> bool"
  upper :: "pystr \<Rightarrow> pystr"
  lower :: "pystr \<Rightarrow> pystr"
  int_of :: "pystr \<Rightarrow> int option"

text \<open>
  \<open>alpha\<close> and \<open>digit\<close> say of a code point whether \<open>str.isalpha\<close> and \<open>str.isdigit\<close>
  accept it; \<open>upper\<close> and \<open>lower\<close> are \<open>str.upper\<close> and \<open>str.lower\<close>; \<open>int_of\<close> is \<open>int\<close> on
  a string, \<open>None\<close> where it raises \<open>ValueError\<close>.
\<close>

definition strip :: "pystr \<Rightarrow> pystr" where
  "strip s = rev (dropWhile isspace (rev (dropWhile isspace s)))"


definition isalpha :: "builtins \<Rightarrow> pystr \<Rightarrow> bool" where
  "isalpha bi s = (s \<noteq> [] \<and> list_all (alpha bi) s)"


definition contains :: "pystr \<Rightarrow> pystr \<Rightarrow> bool" where
  \<comment> \<open>\<open>needle in hay\<close>\<close>
  "contains needle hay = sublist needle hay"

section \<open>The standard library's approximate matcher\<close>

text \<open>
  \<open>smart_search.py\<close> imports \<open>get_close_matches\<close> from Python's \<open>difflib\<close>. It is modelled
  here after the library's code: \<open>SequenceMatcher\<close> with \<open>isjunk=None\<close> and \<open>autojunk=True\<close>,
  the candidate as sequence \<open>a\<close> and the query as sequence \<open>b\<close>. The sequences are lists
  over any ordered type of elements. Scores are the exact rationals \<open>2*M/T\<close>; the library
  computes them in double precision.
\<close>

type_synonym match = "nat \<times> nat \<times> nat"

definition popular :: "'a list \<Rightarrow> 'a list" where
  "popular b =
     (if 200 \<le> length b
      then filter (\<lambda>c. length b div 100 + 1 < count_list b c) (remdups b)
      else [])"

definition b2j :: "'a list \<Rightarrow> 'a \<Rightarrow> nat list" where
  "b2j b c = (if c \<in> set (popular b) then [] else filter (\<lambda>j. b ! j = c) [0..<length b])"

definition j2len_get :: "(nat \<times> nat) list \<Rightarrow> nat \<Rightarrow> nat" where
  \<comment> \<open>\<open>j2len.get(j-1, 0)\<close>\<close>
  "j2len_get j2len j =
     (if j = 0 then 0 else case map_of j2len (j - 1) of None \<Rightarrow> 0 | Some k \<Rightarrow> k)"

fun flm_row :: "(nat \<times> nat) list \<Rightarrow> nat \<Rightarrow> nat \<Rightarrow> nat \<Rightarrow> nat list \<Rightarrow>
    (nat \<times> nat) list \<times> match \<Rightarrow> (nat \<times> nat) list \<times> match" where
  "flm_row j2len i blo bhi [] acc = acc"
| "flm_row j2len i blo bhi (j # js) (newj2len, (besti, bestj, bestsize)) =
     (if j < blo then flm_row j2len i blo bhi js (newj2len, (besti, bestj, bestsize))
      else if bhi \<le> j then (newj2len, (besti, bestj, bestsize))
      else
        (let k = j2len_get j2len j + 1
         in flm_row j2len i blo bhi js
              ((j, k) # newj2len,
               if bestsize < k then (i + 1 - k, j + 1 - k, k) else (besti, bestj, bestsize))))"

fun flm_rows :: "'a list \<Rightarrow> 'a list \<Rightarrow> nat \<Rightarrow> nat \<Rightarrow> nat list \<Rightarrow>
    (nat \<times> nat) list \<times> match \<Rightarrow> match" where
  "flm_rows a b blo bhi [] (j2len, best) = best"
| "flm_rows a b blo bhi (i # is) (j2len, best) =
     flm_rows a b blo bhi is (flm_row j2len i blo bhi (b2j b (a ! i)) ([], best))"

fun extend_left :: "'a list \<Rightarrow> 'a list \<Rightarrow> nat \<Rightarrow> nat \<Rightarrow> match \<Rightarrow> match" where
  "extend_left a b alo blo (besti, bestj, bestsize) =
     (if alo < besti \<and> blo < bestj \<and> a ! (besti - 1) = b ! (bestj - 1)
      then extend_left a b alo blo (besti - 1, bestj - 1, bestsize + 1)
      else (besti, bestj, bestsize))"

function extend_right :: "'a list \<Rightarrow> 'a list \<Rightarrow> nat \<Rightarrow> nat \<Rightarrow> match \<Rightarrow> match" where
  "extend_right a b ahi bhi (besti, bestj, bestsize) =
     (if besti + bestsize < ahi \<and> bestj + bestsize < bhi
         \<and> a ! (besti + bestsize) = b ! (bestj + bestsize)
      then extend_right a b ahi bhi (besti, bestj, bestsize + 1)
      else (besti, bestj, bestsize))"
  by pat_completeness auto
termination
  by (relation "measure (\<lambda>(a, b, ahi, bhi, besti, bestj, bestsize). ahi - (besti + bestsize))")
     auto

definition find_longest_match :: "'a list \<Rightarrow> 'a list \<Rightarrow> nat \<Rightarrow> nat \<Rightarrow> nat \<Rightarrow> nat \<Rightarrow> match" where
  \<comment> \<open>no element of \<open>b\<close> is junk, so the two loops that extend over junk never run\<close>
  "find_longest_match a b alo ahi blo bhi =
     extend_right a b ahi bhi
       (extend_left a b alo blo
          (flm_rows a b blo bhi [alo..<ahi] ([], (alo, blo, 0))))"

text \<open>
  The block found lies inside the window of \<open>a\<close>; this is what makes the recursion over
  the two remaining windows terminate.
\<close>

declare extend_left.simps [simp del]

declare extend_right.simps [simp del]

definition row_ok :: "nat \<Rightarrow> (nat \<times> nat) list \<Rightarrow> bool" where
  "row_ok m t = (\<forall>(j, k) \<in> set t. k \<le> m)"

definition best_ok :: "nat \<Rightarrow> nat \<Rightarrow> match \<Rightarrow> bool" where
  "best_ok alo ahi m = (case m of (i, j, k) \<Rightarrow> alo \<le> i \<and> i + k \<le> ahi)"

lemma j2len_get_le: "row_ok m t \<Longrightarrow> j2len_get t j \<le> m"
  by (auto simp: row_ok_def j2len_get_def split: option.splits dest!: map_of_SomeD)

lemma flm_row_inv:
  assumes "row_ok (i - alo) j2len" "alo \<le> i" "i < ahi"
  shows "row_ok (i + 1 - alo) new \<Longrightarrow> best_ok alo ahi best \<Longrightarrow>
     row_ok (i + 1 - alo) (fst (flm_row j2len i blo bhi js (new, best))) \<and>
     best_ok alo ahi (snd (flm_row j2len i blo bhi js (new, best)))"
proof (induction js arbitrary: new best)
  case Nil
  then show ?case by simp
next
  case (Cons j js)
  obtain bi bj bs where b: "best = (bi, bj, bs)" by (cases best)
  have k: "j2len_get j2len j + 1 \<le> i + 1 - alo"
    using j2len_get_le [OF assms(1), of j] assms(2) by simp
  show ?case
  proof (cases "j < blo \<or> bhi \<le> j")
    case True
    then show ?thesis using Cons b by auto
  next
    case False
    let ?k = "j2len_get j2len j + 1"
    have r: "row_ok (i + 1 - alo) ((j, ?k) # new)"
      using Cons.prems(1) k by (simp add: row_ok_def)
    have bo: "best_ok alo ahi (if bs < ?k then (i + 1 - ?k, j + 1 - ?k, ?k) else (bi, bj, bs))"
      using Cons.prems(2) k assms b by (auto simp: best_ok_def)
    have step: "flm_row j2len i blo bhi (j # js) (new, best) =
        flm_row j2len i blo bhi js
          ((j, ?k) # new, if bs < ?k then (i + 1 - ?k, j + 1 - ?k, ?k) else (bi, bj, bs))"
      using False b by (simp add: Let_def)
    show ?thesis unfolding step using Cons.IH [OF r bo] .
  qed
qed

lemma flm_rows_inv:
  "row_ok (i0 - alo) j2len \<Longrightarrow> alo \<le> i0 \<Longrightarrow> best_ok alo ahi best \<Longrightarrow>
   best_ok alo ahi (flm_rows a b blo bhi [i0..<ahi] (j2len, best))"
proof (induction "ahi - i0" arbitrary: i0 j2len best)
  case 0
  then show ?case by simp
next
  case (Suc n)
  then have lt: "i0 < ahi" by simp
  let ?r = "flm_row j2len i0 blo bhi (b2j b (a ! i0)) ([], best)"
  have inv: "row_ok (i0 + 1 - alo) (fst ?r) \<and> best_ok alo ahi (snd ?r)"
    using flm_row_inv [OF Suc.prems(1) Suc.prems(2) lt, of "[]" best] Suc.prems(3)
    by (simp add: row_ok_def)
  have "best_ok alo ahi (flm_rows a b blo bhi [Suc i0..<ahi] (fst ?r, snd ?r))"
    using Suc.hyps(1) [of "Suc i0" "fst ?r" "snd ?r"] Suc.hyps(2) Suc.prems(2) inv by simp
  then show ?case using lt by (simp add: upt_conv_Cons)
qed

lemma extend_left_inv:
  "best_ok alo ahi m \<Longrightarrow> best_ok alo ahi (extend_left a b alo blo m)"
proof (induction a b alo blo m rule: extend_left.induct)
  case (1 a b alo blo besti bestj bestsize)
  show ?case
  proof (cases "alo < besti \<and> blo < bestj \<and> a ! (besti - 1) = b ! (bestj - 1)")
    case True
    have "best_ok alo ahi (besti - 1, bestj - 1, bestsize + 1)"
      using "1.prems" True by (auto simp: best_ok_def)
    then show ?thesis using "1.IH" True by (subst extend_left.simps) simp
  next
    case False
    then show ?thesis using "1.prems" by (subst extend_left.simps) auto
  qed
qed

lemma extend_right_inv:
  "best_ok alo ahi m \<Longrightarrow> best_ok alo ahi (extend_right a b ahi bhi m)"
proof (induction a b ahi bhi m rule: extend_right.induct)
  case (1 a b ahi bhi besti bestj bestsize)
  show ?case
  proof (cases "besti + bestsize < ahi \<and> bestj + bestsize < bhi
         \<and> a ! (besti + bestsize) = b ! (bestj + bestsize)")
    case True
    have "best_ok alo ahi (besti, bestj, bestsize + 1)"
      using "1.prems" True by (auto simp: best_ok_def)
    then show ?thesis using "1.IH" True by (subst extend_right.simps) simp
  next
    case False
    then show ?thesis using "1.prems" by (subst extend_right.simps) auto
  qed
qed

lemma find_longest_match_bounds:
  assumes "find_longest_match a b alo ahi blo bhi = (i, j, k)" "k \<noteq> 0"
  shows "alo \<le> i \<and> i + k \<le> ahi"
proof (cases "alo \<le> ahi")
  case True
  have "best_ok alo ahi (alo, blo, 0)" using True by (simp add: best_ok_def)
  then have "best_ok alo ahi (flm_rows a b blo bhi [alo..<ahi] ([], (alo, blo, 0)))"
    by (intro flm_rows_inv) (simp_all add: row_ok_def)
  then have "best_ok alo ahi (find_longest_match a b alo ahi blo bhi)"
    unfolding find_longest_match_def by (intro extend_right_inv extend_left_inv)
  then show ?thesis using assms by (simp add: best_ok_def)
next
  case False
  then have "find_longest_match a b alo ahi blo bhi = (alo, blo, 0)"
    unfolding find_longest_match_def
    by (simp add: extend_left.simps extend_right.simps)
  then show ?thesis using assms by simp
qed

lemma find_longest_match_shrinks:
  assumes "(i, j, k) = find_longest_match a b alo ahi blo bhi" "0 < k"
  shows "(alo < i \<longrightarrow> i - alo < ahi - alo) \<and> (i + k < ahi \<longrightarrow> ahi - (i + k) < ahi - alo)"
  using find_longest_match_bounds [of a b alo ahi blo bhi i j k] assms by auto

function matching_blocks :: "'a list \<Rightarrow> 'a list \<Rightarrow> nat \<Rightarrow> nat \<Rightarrow> nat \<Rightarrow> nat \<Rightarrow> match list" where
  "matching_blocks a b alo ahi blo bhi =
     (case find_longest_match a b alo ahi blo bhi of (i, j, k) \<Rightarrow>
        if k = 0 then []
        else (if alo < i \<and> blo < j then matching_blocks a b alo i blo j else [])
             @ [(i, j, k)]
             @ (if i + k < ahi \<and> j + k < bhi then matching_blocks a b (i + k) ahi (j + k) bhi
                else []))"
  by pat_completeness auto
termination
proof (relation "measure (\<lambda>(a, b, alo, ahi, blo, bhi). ahi - alo)", goal_cases)
  case 1
  show ?case by simp
next
  case (2 a b alo ahi blo bhi i y j k)
  then have "(i, j, k) = find_longest_match a b alo ahi blo bhi" "0 < k" by simp_all
  from find_longest_match_shrinks [OF this] 2 show ?case by simp
next
  case (3 a b alo ahi blo bhi i y j k)
  then have "(i, j, k) = find_longest_match a b alo ahi blo bhi" "0 < k" by simp_all
  from find_longest_match_shrinks [OF this] 3 show ?case by simp
qed

definition calculate_ratio :: "nat \<Rightarrow> nat \<Rightarrow> rat" where
  "calculate_ratio matches len = (if len \<noteq> 0 then 2 * of_nat matches / of_nat len else 1)"

definition ratio :: "'a list \<Rightarrow> 'a list \<Rightarrow> rat" where
  \<comment> \<open>\<open>get_matching_blocks\<close> sorts the blocks and merges adjacent ones, which keeps their total size\<close>
  "ratio a b =
     calculate_ratio
       (sum_list (map (\<lambda>(i, j, k). k) (matching_blocks a b 0 (length a) 0 (length b))))
       (length a + length b)"

fun quick_matches :: "'a list \<Rightarrow> 'a list \<Rightarrow> ('a \<times> int) list \<Rightarrow> nat \<Rightarrow> nat" where
  "quick_matches b [] avail matches = matches"
| "quick_matches b (elt # rest) avail matches =
     (let numb = (case map_of avail elt of Some v \<Rightarrow> v | None \<Rightarrow> int (count_list b elt))
      in quick_matches b rest (AList.update elt (numb - 1) avail)
           (if 0 < numb then matches + 1 else matches))"

definition quick_ratio :: "'a list \<Rightarrow> 'a list \<Rightarrow> rat" where
  "quick_ratio a b = calculate_ratio (quick_matches b a [] 0) (length a + length b)"

definition real_quick_ratio :: "'a list \<Rightarrow> 'a list \<Rightarrow> rat" where
  "real_quick_ratio a b = calculate_ratio (min (length a) (length b)) (length a + length b)"

definition nlargest :: "nat \<Rightarrow> (rat \<times> ('a::linorder) list) list \<Rightarrow> (rat \<times> 'a list) list" where
  \<comment> \<open>\<open>heapq.nlargest(n, xs)\<close>, that is \<open>sorted(xs, reverse=True)[:n]\<close>\<close>
  "nlargest n xs = take n (rev (sort xs))"

definition passes :: "'a list \<Rightarrow> rat \<Rightarrow> 'a list \<Rightarrow> bool" where
  "passes word cutoff x =
     (cutoff \<le> real_quick_ratio x word \<and> cutoff \<le> quick_ratio x word \<and> cutoff \<le> ratio x word)"

definition close_matches ::
    "('a::linorder) list \<Rightarrow> 'a list list \<Rightarrow> nat \<Rightarrow> rat \<Rightarrow> 'a list list" where
  \<comment> \<open>the body of \<open>get_close_matches\<close> after its two argument checks\<close>
  "close_matches word possibilities n cutoff =
     map snd (nlargest n (map (\<lambda>x. (ratio x word, x)) (filter (passes word cutoff) possibilities)))"

datatype py_error = ValueError

definition get_close_matches ::
    "('a::linorder) list \<Rightarrow> 'a list list \<Rightarrow> int \<Rightarrow> rat \<Rightarrow> py_error + 'a list list" where
  "get_close_matches word possibilities n cutoff =
     (if \<not> 0 < n then Inl ValueError
      else if \<not> (0 \<le> cutoff \<and> cutoff \<le> 1) then Inl ValueError
      else Inr (close_matches word possibilities (nat n) cutoff))"

section \<open>Airport records and the dataset builder (\<open>extended_data.py\<close>)\<close>

text \<open>
  An airport is the dictionary built in \<open>process_airport_data\<close>. The type \<open>'f\<close> stands for
  Python's \<open>float\<close>; the fields \<open>id\<close> and \<open>type\<close> are called \<open>ident\<close> and \<open>kind\<close> here.
\<close>

record 'f airport =
  ident :: int
  name :: pystr
  city :: pystr
  country :: pystr
  iata :: pystr
  icao :: pystr
  latitude :: 'f
  longitude :: 'f
  elevation :: int
  timezone :: pystr
  kind :: pystr
  source :: pystr




definition city_key :: "'f airport \<Rightarrow> pystr" where
  "city_key a = city a @ str '', '' @ country a"



text \<open>
  A Python \<open>dict\<close> is an association list with its keys in insertion order: assigning to a
  key that is present replaces the value in place, assigning to a new key appends.
\<close>

definition getitem :: "('k \<times> 'v list) list \<Rightarrow> 'k \<Rightarrow> 'v list" where
  \<comment> \<open>\<open>d[k]\<close> of a \<open>defaultdict(list)\<close>, and of a loaded index at one of its own keys\<close>
  "getitem d k = (case map_of d k of None \<Rightarrow> [] | Some v \<Rightarrow> v)"

record 'f index_set =
  iata_index :: "(pystr \<times> 'f airport) list"
  icao_index :: "(pystr \<times> 'f airport) list"
  city_index :: "(pystr \<times> 'f airport list) list"
  country_index :: "(pystr \<times> 'f airport list) list"

definition create_search_indexes :: "'f airport list \<Rightarrow> 'f index_set" where
  "create_search_indexes airports =
     \<lparr> iata_index =
         foldl (\<lambda>d a. if iata a \<noteq> [] then AList.update (iata a) a d else d) [] airports,
       icao_index =
         foldl (\<lambda>d a. if icao a \<noteq> [] then AList.update (icao a) a d else d) [] airports,
       city_index =
         foldl (\<lambda>d a. AList.update (city_key a) (getitem d (city_key a) @ [a]) d) [] airports,
       country_index =
         foldl (\<lambda>d a. AList.update (country a) (getitem d (country a) @ [a]) d) [] airports \<rparr>"

section \<open>The data directory\<close>

text \<open>
  The five JSON files that \<open>save_processed_data\<close> writes and \<open>load_data\<close> reads. Writing a
  value with \<open>json.dump\<close> and reading it back with \<open>json.load\<close> is taken to give the value back.
\<close>

datatype 'a json_file = Absent | Unreadable | Holds 'a

record 'f data_dir =
  airport_data_json :: "'f airport list json_file"
  iata_index_json :: "(pystr \<times> 'f airport) list json_file"
  icao_index_json :: "(pystr \<times> 'f airport) list json_file"
  city_index_json :: "(pystr \<times> 'f airport list) list json_file"
  country_index_json :: "(pystr \<times> 'f airport list) list json_file"

definition save_processed_data :: "'f airport list \<Rightarrow> pystr set \<Rightarrow> pystr set \<Rightarrow> 'f data_dir" where
  \<comment> \<open>\<open>countries.json\<close> and \<open>cities.json\<close> are written too; nothing reads them\<close>
  "save_processed_data airports countries cities =
     (let ix = create_search_indexes airports
      in \<lparr> airport_data_json = Holds airports,
           iata_index_json = Holds (iata_index ix),
           icao_index_json = Holds (icao_index ix),
           city_index_json = Holds (city_index ix),
           country_index_json = Holds (country_index ix) \<rparr>)"

section \<open>The search engine (\<open>smart_search.py\<close>)\<close>

record 'f AirportSearch =
  airports :: "'f airport list"
  iata_idx :: "(pystr \<times> 'f airport) list"
  icao_idx :: "(pystr \<times> 'f airport) list"
  city_idx :: "(pystr \<times> 'f airport list) list"
  country_idx :: "(pystr \<times> 'f airport list) list"

text \<open>
  \<open>load_data\<close> either fills the object or prints a message and calls \<open>exit(1)\<close>, which ends
  the process: \<open>SystemExit\<close> is not an \<open>Exception\<close>, and no caller in the repository
  catches it.
\<close>

datatype message = DatabaseNotFound | ErrorLoadingData

datatype 'a outcome = Exits message int | Returns 'a

definition read_json :: "'a json_file \<Rightarrow> ('a \<Rightarrow> 'b outcome) \<Rightarrow> 'b outcome" where
  \<comment> \<open>\<open>open\<close> and \<open>json.load\<close> inside the \<open>try\<close> of \<open>load_data\<close>, then the rest of the \<open>try\<close>\<close>
  "read_json f rest =
     (case f of
        Absent \<Rightarrow> Exits DatabaseNotFound 1
      | Unreadable \<Rightarrow> Exits ErrorLoadingData 1
      | Holds v \<Rightarrow> rest v)"

definition load_data :: "'f data_dir \<Rightarrow> 'f AirportSearch outcome" where
  "load_data d =
     read_json (airport_data_json d) (\<lambda>aps.
     read_json (iata_index_json d) (\<lambda>ia.
     read_json (icao_index_json d) (\<lambda>ic.
     read_json (city_index_json d) (\<lambda>ci.
     read_json (country_index_json d) (\<lambda>co.
       Returns \<lparr> airports = aps, iata_idx = ia, icao_idx = ic,
                 city_idx = ci, country_idx = co \<rparr>)))))"

definition init :: "'f data_dir \<Rightarrow> 'f AirportSearch outcome" where
  \<comment> \<open>\<open>AirportSearch()\<close>: \<open>__init__\<close> sets the five fields empty and calls \<open>load_data\<close>\<close>
  "init d = load_data d"

text \<open>What \<open>search_by_code\<close> prints: the heading, then one line for each suggestion.\<close>

datatype printed = DidYouMean pystr | Suggestion pystr pystr pystr

fun suggestion_line :: "'f AirportSearch \<Rightarrow> pystr \<Rightarrow> printed list" where
  "suggestion_line s suggestion =
     (case map_of (iata_idx s) suggestion of
        Some airport \<Rightarrow> [Suggestion suggestion (name airport) (city airport)]
      | None \<Rightarrow>
          (case map_of (icao_idx s) suggestion of
             Some airport \<Rightarrow> [Suggestion suggestion (name airport) (city airport)]
           | None \<Rightarrow> []))"

definition all_codes :: "'f AirportSearch \<Rightarrow> pystr list" where
  "all_codes s = map fst (iata_idx s) @ map fst (icao_idx s)"

definition search_by_code ::
    "builtins \<Rightarrow> 'f AirportSearch \<Rightarrow> pystr \<Rightarrow> 'f airport list \<times> printed list" where
  "search_by_code bi s code0 =
     (let code = strip (upper bi code0) in
      case (if length code = 3 then map_of (iata_idx s) code else None) of
        Some airport \<Rightarrow> ([airport], [])
      | None \<Rightarrow>
          (case (if length code = 4 then map_of (icao_idx s) code else None) of
             Some airport \<Rightarrow> ([airport], [])
           | None \<Rightarrow>
               (let suggestions = close_matches code (all_codes s) 5 (3 / 5)
                in ([], if suggestions \<noteq> []
                        then DidYouMean code # concat (map (suggestion_line s) suggestions)
                        else []))))"

definition search_by_city :: "builtins \<Rightarrow> 'f AirportSearch \<Rightarrow> pystr \<Rightarrow> 'f airport list" where
  "search_by_city bi s city_name0 =
     (let city_name = strip city_name0;
          results = concat (map (\<lambda>(key, bucket).
                       if contains (lower bi city_name) (lower bi key) then bucket else [])
                     (city_idx s))
      in if results = []
         then concat (map (getitem (city_idx s))
                (close_matches city_name (map fst (city_idx s)) 10 (3 / 5)))
         else results)"

definition search_by_country :: "'f AirportSearch \<Rightarrow> pystr \<Rightarrow> 'f airport list" where
  "search_by_country s country_name0 =
     (let country_name = strip country_name0 in
      case map_of (country_idx s) country_name of
        Some bucket \<Rightarrow> bucket
      | None \<Rightarrow>
          concat (map (getitem (country_idx s))
            (close_matches country_name (map fst (country_idx s)) 3 (3 / 5))))"

definition search_by_name :: "builtins \<Rightarrow> 'f AirportSearch \<Rightarrow> pystr \<Rightarrow> 'f airport list" where
  "search_by_name bi s airport_name0 =
     (let airport_name = strip (lower bi airport_name0)
      in filter (\<lambda>airport. contains airport_name (lower bi (name airport))) (airports s))"

definition looks_like_code :: "builtins \<Rightarrow> pystr \<Rightarrow> bool" where
  "looks_like_code bi query = ((length query = 3 \<or> length query = 4) \<and> isalpha bi query)"

definition smart_search ::
    "builtins \<Rightarrow> 'f AirportSearch \<Rightarrow> pystr \<Rightarrow> 'f airport list \<times> printed list" where
  "smart_search bi s query0 =
     (let query = strip query0 in
      if query = [] then ([], [])
      else
        (let (results, out) = (if looks_like_code bi query then search_by_code bi s query
                               else ([], []))
         in if results \<noteq> [] then (results, out)
            else
              (let city_results = search_by_city bi s query
               in if city_results \<noteq> [] then (city_results, out)
                  else
                    (let country_results = search_by_country s query
                     in if country_results \<noteq> [] then (country_results, out)
                        else
                          (let name_results = search_by_name bi s query
                           in if name_results \<noteq> [] then (name_results, out)
                              else ([], out))))))"

definition get_country_airports :: "'f AirportSearch \<Rightarrow> pystr \<Rightarrow> 'f airport list" where
  "get_country_airports s country_name =
     (case map_of (country_idx s) country_name of
        Some bucket \<Rightarrow> sort_key city bucket
      | None \<Rightarrow>
          (case close_matches country_name (map fst (country_idx s)) 1 (3 / 5) of
             [] \<Rightarrow> []
           | m # ms \<Rightarrow> sort_key city (getitem (country_idx s) m)))"

section \<open>The specification's wording, and sample data\<close>

text \<open>
  The ranking as the specification words it: descending score, equal scores in the
  candidates' lexical order.
\<close>

definition spec_ranked :: "('a::linorder) list \<Rightarrow> 'a list list \<Rightarrow> bool" where
  "spec_ranked word rs =
     sorted_wrt (\<lambda>x y. ratio y word < ratio x word \<or> (ratio x word = ratio y word \<and> x \<le> y)) rs"

text \<open>
  The search object after \<open>extended_data.py\<close> has written the data directory for an
  airport list and \<open>AirportSearch()\<close> has loaded it.
\<close>

definition loaded :: "'f airport list \<Rightarrow> 'f AirportSearch" where
  "loaded aps =
     (let ix = create_search_indexes aps
      in \<lparr> airports = aps, iata_idx = iata_index ix, icao_idx = icao_index ix,
           city_idx = city_index ix, country_idx = country_index ix \<rparr>)"

text \<open>
  The built-ins on ASCII text, for the examples below: on a string of ASCII characters they
  give what Python gives (\<open>int_of\<close> on a string of ASCII digits). The theorems are about every
  value of the record; only the examples use this one.
\<close>

definition ascii_builtins :: builtins where
  "ascii_builtins =
     \<lparr> alpha = (\<lambda>c. (65 \<le> c \<and> c \<le> 90) \<or> (97 \<le> c \<and> c \<le> 122)),
       digit = (\<lambda>c. 48 \<le> c \<and> c \<le> 57),
       upper = map (\<lambda>c. if 97 \<le> c \<and> c \<le> 122 then c - 32 else c),
       lower = map (\<lambda>c. if 65 \<le> c \<and> c \<le> 90 then c + 32 else c),
       int_of = (\<lambda>s. if s \<noteq> [] \<and> list_all (\<lambda>c. 48 \<le> c \<and> c \<le> 57) s
                     then Some (foldl (\<lambda>n c. 10 * n + (c - 48)) 0 s) else None) \<rparr>"

text \<open>
  The first three airports of \<open>create_sample_data\<close>, and the first of them with its code
  stored in lower case.
\<close>

definition jfk :: "rat airport" where
  "jfk = \<lparr> ident = 1, name = str ''John F Kennedy Intl'', city = str ''New York'',
           country = str ''United States'', iata = str ''JFK'', icao = str ''KJFK'',
           latitude = 40639751 / 1000000, longitude = - 73778925 / 1000000, elevation = 13,
           timezone = str ''America/New_York'', kind = str ''airport'',
           source = str ''OurAirports'' \<rparr>"

definition lax :: "rat airport" where
  "lax = \<lparr> ident = 2, name = str ''Los Angeles Intl'', city = str ''Los Angeles'',
           country = str ''United States'', iata = str ''LAX'', icao = str ''KLAX'',
           latitude = 33942536 / 1000000, longitude = - 118408075 / 1000000, elevation = 125,
           timezone = str ''America/Los_Angeles'', kind = str ''airport'',
           source = str ''OurAirports'' \<rparr>"

definition lhr :: "rat airport" where
  "lhr = \<lparr> ident = 3, name = str ''London Heathrow'', city = str ''London'',
           country = str ''United Kingdom'', iata = str ''LHR'', icao = str ''EGLL'',
           latitude = 514706 / 10000, longitude = - 461941 / 1000000, elevation = 83,
           timezone = str ''Europe/London'', kind = str ''airport'',
           source = str ''OurAirports'' \<rparr>"

definition jfk_lower_case :: "rat airport" where
  "jfk_lower_case = jfk \<lparr> iata := str ''jfk'' \<rparr>"

text \<open>
  The precedence chain as the specification words it: an empty query returns an empty
  result without invoking any strategy; otherwise the result is that of the first of code,
  city, country and name lookup that is not empty, code lookup being tried only for a
  trimmed query of 3 or 4 alphabetic characters.
\<close>

fun first_nonempty :: "'a list list \<Rightarrow> 'a list" where
  "first_nonempty [] = []"
| "first_nonempty (x # xs) = (if x \<noteq> [] then x else first_nonempty xs)"

definition spec_search :: "builtins \<Rightarrow> 'f AirportSearch \<Rightarrow> pystr \<Rightarrow> 'f airport list" where
  "spec_search bi s query0 =
     (let query = strip query0
      in if query = [] then []
         else first_nonempty
           [if looks_like_code bi query then fst (search_by_code bi s query) else [],
            search_by_city bi s query,
            search_by_country s query,
            search_by_name bi s query])"

text \<open>
  Country lookup as the specification words it: the bucket of an exact match, otherwise
  the bucket of the best fuzzy match alone.
\<close>

definition spec_country_lookup :: "'f AirportSearch \<Rightarrow> pystr \<Rightarrow> 'f airport list" where
  "spec_country_lookup s country_name0 =
     (let country_name = strip country_name0 in
      case map_of (country_idx s) country_name of
        Some bucket \<Rightarrow> bucket
      | None \<Rightarrow>
          (case close_matches country_name (map fst (country_idx s)) 3 (3 / 5) of
             [] \<Rightarrow> []
           | m # ms \<Rightarrow> getitem (country_idx s) m))"

fun printed_code :: "printed \<Rightarrow> pystr" where
  "printed_code (DidYouMean code) = code"
| "printed_code (Suggestion suggestion airport_name airport_city) = suggestion"





text \<open>
  Whether \<open>AirportSearch()\<close> hands anything back to the code that called it, whether a file
  can be read, and a data directory without any of the five files.
\<close>

definition returns_to_caller :: "'a outcome \<Rightarrow> bool" where
  "returns_to_caller r = (case r of Returns v \<Rightarrow> True | Exits m c \<Rightarrow> False)"

definition readable :: "'a json_file \<Rightarrow> bool" where
  "readable f = (case f of Holds v \<Rightarrow> True | Absent \<Rightarrow> False | Unreadable \<Rightarrow> False)"

definition no_data :: "rat data_dir" where
  "no_data = \<lparr> airport_data_json = Absent, iata_index_json = Absent, icao_index_json = Absent,
               city_index_json = Absent, country_index_json = Absent \<rparr>"

section \<open>The distance calculator\<close>

text \<open>
  Modelled from the spec: \<open>advanced_features.py\<close>, which holds the distance calculator, is not
  among the source files. The specification gives the haversine great-circle formula on
  latitude and longitude in degrees, an Earth radius of 6371 km and 0.621371 miles to the
  kilometre. The formula is taken over the real numbers; the rounding of floating-point
  arithmetic is not modelled.
\<close>

definition radians :: "real \<Rightarrow> real" where
  "radians d = d * pi / 180"

text \<open>
  Modelled from the spec: the haversine formula with an Earth radius of 6371 km.
\<close>

definition haversine_km :: "real \<Rightarrow> real \<Rightarrow> real \<Rightarrow> real \<Rightarrow> real" where
  "haversine_km lat1 lon1 lat2 lon2 =
     (let dlat = radians (lat2 - lat1);
          dlon = radians (lon2 - lon1);
          h = (sin (dlat / 2))\<^sup>2
              + cos (radians lat1) * cos (radians lat2) * (sin (dlon / 2))\<^sup>2
      in 6371 * (2 * arcsin (sqrt h)))"

text \<open>
  Modelled from the spec: \<open>distance(a, b) -> Distance{km, miles}\<close>, with 1 km = 0.621371 mi.
\<close>

definition distance :: "real airport \<Rightarrow> real airport \<Rightarrow> real \<times> real" where
  \<comment> \<open>kilometres and miles\<close>
  "distance a b =
     (let km = haversine_km (latitude a) (longitude a) (latitude b) (longitude b)
      in (km, km * 0.621371))"

section \<open>Index construction\<close>

lemma code_index_lookup:
  "map_of (foldl (\<lambda>d a. if k a \<noteq> [] then AList.update (k a) a d else d) d0 xs) c =
     (case find (\<lambda>a. k a = c) (rev xs) of
        None \<Rightarrow> map_of d0 c
      | Some a \<Rightarrow> if c = [] then map_of d0 c else Some a)"
proof (induction xs rule: rev_induct)
  case Nil
  then show ?case by simp
next
  case (snoc x xs)
  then show ?case by (auto simp: update_conv' split: option.splits)
qed

lemma bucket_index_lookup:
  "getitem (foldl (\<lambda>d a. AList.update (k a) (getitem d (k a) @ [a]) d) d0 xs) c =
     getitem d0 c @ filter (\<lambda>a. k a = c) xs"
proof (induction xs rule: rev_induct)
  case Nil
  then show ?case by simp
next
  case (snoc x xs)
  then show ?case by (auto simp: getitem_def update_conv' split: option.splits)
qed

text \<open>
  C8. The four indexes are a function of the airport list alone: a code maps to the last
  airport of the list that carries it (codes that are empty strings are not indexed), and a
  city key or a country maps to the airports that carry it, in list order. Building the
  indexes again from the same list therefore gives the same contents.
\<close>

theorem index_build_last_writer_wins:
  "map_of (iata_index (create_search_indexes aps)) c =
     (if c = [] then None else find (\<lambda>a. iata a = c) (rev aps))
   \<and> map_of (icao_index (create_search_indexes aps)) c =
     (if c = [] then None else find (\<lambda>a. icao a = c) (rev aps))
   \<and> getitem (city_index (create_search_indexes aps)) k = filter (\<lambda>a. city_key a = k) aps
   \<and> getitem (country_index (create_search_indexes aps)) k = filter (\<lambda>a. country a = k) aps"
proof -
  have e: "getitem [] k = ([] :: 'a airport list)" by (simp add: getitem_def)
  show ?thesis
    by (simp add: create_search_indexes_def code_index_lookup bucket_index_lookup e
        split: option.splits)
qed

section \<open>The approximate matcher\<close>

lemma nlargest_sorted: "sorted_wrt (\<lambda>p q. q \<le> p) (nlargest n xs)"
proof -
  have "sorted_wrt (\<lambda>p q. q \<le> p) (rev (sort xs))"
    by (simp add: sorted_wrt_rev)
  then show ?thesis
    unfolding nlargest_def by (rule sorted_wrt_take)
qed

lemma nlargest_subset: "set (nlargest n xs) \<subseteq> set xs"
  unfolding nlargest_def using set_take_subset [of n "rev (sort xs)"] by simp

lemma nlargest_length: "length (nlargest n xs) \<le> n"
  by (simp add: nlargest_def)

lemma close_matches_scored:
  "p \<in> set (nlargest n (map (\<lambda>x. (ratio x word, x)) (filter (passes word cutoff) ps))) \<Longrightarrow>
   fst p = ratio (snd p) word \<and> snd p \<in> set ps \<and> passes word cutoff (snd p)"
  using nlargest_subset [of n "map (\<lambda>x. (ratio x word, x)) (filter (passes word cutoff) ps)"]
  by auto

lemma close_matches_subset: "set (close_matches word ps n cutoff) \<subseteq> set ps"
  unfolding close_matches_def using close_matches_scored [of _ n word cutoff ps] by auto

lemma close_matches_passes: "r \<in> set (close_matches word ps n cutoff) \<Longrightarrow> passes word cutoff r"
  unfolding close_matches_def using close_matches_scored [of _ n word cutoff ps] by auto

lemma close_matches_length: "length (close_matches word ps n cutoff) \<le> n"
  by (simp add: close_matches_def nlargest_length)

lemma close_matches_sorted:
  "sorted_wrt (\<lambda>x y. (ratio y word, y) \<le> (ratio x word, x)) (close_matches word ps n cutoff)"
proof -
  let ?L = "nlargest n (map (\<lambda>x. (ratio x word, x)) (filter (passes word cutoff) ps))"
  have "sorted_wrt (\<lambda>p q. (ratio (snd q) word, snd q) \<le> (ratio (snd p) word, snd p)) ?L"
  proof (rule sorted_wrt_mono_rel [OF _ nlargest_sorted])
    fix p q
    assume "p \<in> set ?L" "q \<in> set ?L" "q \<le> p"
    moreover from this have "p = (ratio (snd p) word, snd p)" "q = (ratio (snd q) word, snd q)"
      using close_matches_scored [of p n word cutoff ps] close_matches_scored [of q n word cutoff ps]
      by (metis prod.collapse)+
    ultimately show "(ratio (snd q) word, snd q) \<le> (ratio (snd p) word, snd p)" by simp
  qed
  then show ?thesis by (simp add: close_matches_def sorted_wrt_map)
qed

text \<open>
  C4 (as amended). When \<open>get_close_matches\<close> returns, which it does exactly for \<open>n > 0\<close> and
  a cutoff within \<open>[0, 1]\<close>, every result is one of the candidates and scores at least the
  cutoff against the query, there are at most \<open>n\<close> results, and they are in descending order
  of score, equal scores in descending lexical order of the candidates.
\<close>

theorem get_close_matches_ranked:
  assumes "get_close_matches word ps n cutoff = Inr rs"
  shows "0 < n \<and> 0 \<le> cutoff \<and> cutoff \<le> 1
    \<and> set rs \<subseteq> set ps
    \<and> (\<forall>r \<in> set rs. cutoff \<le> ratio r word)
    \<and> int (length rs) \<le> n
    \<and> sorted_wrt (\<lambda>x y. ratio y word < ratio x word \<or> (ratio x word = ratio y word \<and> y \<le> x)) rs"
proof -
  from assms have n: "0 < n" and c: "0 \<le> cutoff \<and> cutoff \<le> 1"
    and rs: "rs = close_matches word ps (nat n) cutoff"
    by (auto simp: get_close_matches_def split: if_splits)
  have "sorted_wrt (\<lambda>x y. (ratio y word, y) \<le> (ratio x word, x)) rs"
    unfolding rs by (rule close_matches_sorted)
  then have s: "sorted_wrt (\<lambda>x y. ratio y word < ratio x word \<or> (ratio x word = ratio y word \<and> y \<le> x)) rs"
    by (rule sorted_wrt_mono_rel [rotated]) (auto simp: less_eq_prod_def)
  have l: "int (length rs) \<le> n"
    using close_matches_length [of word ps "nat n" cutoff] n unfolding rs by simp
  have p: "\<forall>r \<in> set rs. cutoff \<le> ratio r word"
    using close_matches_passes [of _ word ps "nat n" cutoff] unfolding rs passes_def by blast
  show ?thesis using n c s l p close_matches_subset [of word ps "nat n" cutoff] unfolding rs by blast
qed

theorem get_close_matches_ranked_witness:
  "get_close_matches ''ab'' [''abc'', ''abd'', ''xyz''] 5 (3 / 5) = Inr [''abd'', ''abc'']
   \<and> 3 / 5 \<le> ratio ''abd'' ''ab'' \<and> 3 / 5 \<le> ratio ''abc'' ''ab''
   \<and> length [''abd'', ''abc''] \<le> 5
   \<and> sorted_wrt (\<lambda>x y. ratio y ''ab'' < ratio x ''ab'' \<or> (ratio x ''ab'' = ratio y ''ab'' \<and> y \<le> x))
         [''abd'', ''abc'']"
proof -
  have h: "get_close_matches ''ab'' [''abc'', ''abd'', ''xyz''] 5 (3 / 5) = Inr [''abd'', ''abc'']"
    by code_simp
  from h get_close_matches_ranked [OF h] show ?thesis by simp
qed

text \<open>
  C4 as stated fails: two candidates with the same score come out in descending lexical
  order, not in their lexical order.
\<close>

theorem get_close_matches_ties_counterexample:
  "get_close_matches ''ab'' [''abc'', ''abd''] 5 (3 / 5) = Inr [''abd'', ''abc'']
   \<and> ratio ''abd'' ''ab'' = ratio ''abc'' ''ab''
   \<and> \<not> spec_ranked ''ab'' [''abd'', ''abc'']"
  by code_simp

section \<open>The search engine\<close>

lemma init_after_save: "init (save_processed_data aps cs cts) = Returns (loaded aps)"
  by (simp add: init_def load_data_def save_processed_data_def read_json_def loaded_def Let_def)

lemma find_SomeD: "find P xs = Some x \<Longrightarrow> P x \<and> x \<in> set xs"
  by (induction xs) (auto split: if_splits)

lemma find_last_unique:
  assumes "r \<in> set aps" "\<forall>a \<in> set aps. k a = k r \<longrightarrow> a = r"
  shows "find (\<lambda>a. k a = k r) (rev aps) = Some r"
proof (cases "find (\<lambda>a. k a = k r) (rev aps)")
  case None
  then show ?thesis using assms(1) by (auto simp: find_None_iff)
next
  case (Some a)
  from find_SomeD [OF this] have "k a = k r" "a \<in> set aps" by simp_all
  then show ?thesis using assms(2) Some by simp
qed

lemma index_build_lookup_iata:
  "map_of (iata_index (create_search_indexes aps)) c =
     (if c = [] then None else find (\<lambda>a. iata a = c) (rev aps))"
  by (simp add: create_search_indexes_def code_index_lookup split: option.splits)

lemma dropWhile_id: "xs \<noteq> [] \<Longrightarrow> \<not> P (hd xs) \<Longrightarrow> dropWhile P xs = xs"
  by (cases xs) simp_all

lemma strip_id:
  assumes "s \<noteq> []" "\<not> isspace (hd s)" "\<not> isspace (last s)"
  shows "strip s = s"
proof -
  have "hd (rev s) = last s" using assms(1) by (simp add: hd_rev)
  then have "dropWhile isspace (rev s) = rev s"
    using assms(1,3) by (intro dropWhile_id) simp_all
  moreover have "dropWhile isspace s = s"
    using assms(1,2) by (rule dropWhile_id)
  ultimately show ?thesis by (simp add: strip_def)
qed

lemma strip_letters:
  assumes "isalpha bi s" "\<forall>c. alpha bi c \<longrightarrow> \<not> isspace c"
  shows "strip s = s"
proof (rule strip_id)
  show "s \<noteq> []" using assms(1) by (simp add: isalpha_def)
  then have "hd s \<in> set s" "last s \<in> set s" by simp_all
  then show "\<not> isspace (hd s)" "\<not> isspace (last s)"
    using assms by (auto simp: isalpha_def list_all_iff)
qed

text \<open>
  C1 (as amended). For an airport \<open>r\<close> of the store whose IATA code is three alphabetic
  characters that upper-casing leaves unchanged (three upper-case letters), and that no
  other airport of the store carries, searching for that code returns exactly \<open>[r]\<close> (and
  prints nothing). That no letter is white space, as in Python, is a hypothesis on the
  built-ins.
\<close>

theorem search_by_primary_code_exact:
  assumes "r \<in> set aps"
    and "length (iata r) = 3" and "isalpha bi (iata r)"
    and "upper bi (iata r) = iata r"
    and "\<forall>a \<in> set aps. iata a = iata r \<longrightarrow> a = r"
    and "\<forall>c. alpha bi c \<longrightarrow> \<not> isspace c"
  shows "init (save_processed_data aps cs cts) = Returns (loaded aps)
    \<and> smart_search bi (loaded aps) (iata r) = ([r], [])"
proof -
  have ne: "iata r \<noteq> []" using assms(2) by auto
  have st: "strip (iata r) = iata r" using assms(3,6) by (rule strip_letters)
  have "map_of (iata_index (create_search_indexes aps)) (iata r) = Some r"
    using index_build_lookup_iata [of aps "iata r"] ne find_last_unique [OF assms(1,5)] by simp
  then have hit: "map_of (iata_idx (loaded aps)) (iata r) = Some r"
    by (simp add: loaded_def Let_def)
  have "search_by_code bi (loaded aps) (iata r) = ([r], [])"
    by (simp add: search_by_code_def Let_def assms(2,4) st hit)
  then have "smart_search bi (loaded aps) (iata r) = ([r], [])"
    using ne by (simp add: smart_search_def Let_def looks_like_code_def assms(2,3) st)
  then show ?thesis by (simp add: init_after_save)
qed

theorem search_by_primary_code_exact_witness:
  "init (save_processed_data [jfk, lax] {} {}) = Returns (loaded [jfk, lax])
   \<and> smart_search ascii_builtins (loaded [jfk, lax]) (str ''JFK'') = ([jfk], [])"
proof -
  have a: "isalpha ascii_builtins (iata jfk)" "upper ascii_builtins (iata jfk) = iata jfk"
    "length (iata jfk) = 3" "iata jfk = str ''JFK''"
    by code_simp+
  have n: "\<forall>c. alpha ascii_builtins c \<longrightarrow> \<not> isspace c"
    by (auto simp: ascii_builtins_def isspace_def)
  have u: "\<forall>a \<in> set [jfk, lax]. iata a = iata jfk \<longrightarrow> a = jfk"
    by (simp add: jfk_def lax_def str_def)
  from search_by_primary_code_exact [of jfk "[jfk, lax]" ascii_builtins "{}" "{}"] a u n
  show ?thesis by simp
qed

text \<open>
  C1 as stated fails for a code stored in lower case: it is three alphabetic characters
  and no other airport carries it, but the query is upper-cased before the lookup and the
  index holds the code as stored.
\<close>

theorem search_lower_case_code_counterexample:
  "length (iata jfk_lower_case) = 3
   \<and> isalpha ascii_builtins (iata jfk_lower_case)
   \<and> strip (iata jfk_lower_case) = iata jfk_lower_case
   \<and> map iata (airports (loaded [jfk_lower_case, lax])) = [str ''jfk'', str ''LAX'']
   \<and> fst (smart_search ascii_builtins (loaded [jfk_lower_case, lax]) (iata jfk_lower_case)) = []"
  by code_simp

text \<open>
  C2. The result of \<open>smart_search\<close> is that of the precedence chain: nothing for a query that
  is empty after trimming, otherwise the result of the first of code, city, country and name
  lookup that is not empty. Code lookup is run, and its suggestions printed, only when the
  trimmed query has 3 or 4 characters, all alphabetic.
\<close>

lemma first_nonempty_chain:
  "first_nonempty [a, b, c, d] =
     (if a \<noteq> [] then a else if b \<noteq> [] then b else if c \<noteq> [] then c else d)"
  by simp

theorem smart_search_precedence:
  "fst (smart_search bi s query) = spec_search bi s query
   \<and> snd (smart_search bi s query) =
       (if strip query \<noteq> [] \<and> looks_like_code bi (strip query)
        then snd (search_by_code bi s (strip query)) else [])"
proof (cases "strip query = []")
  case True
  then show ?thesis by (simp add: smart_search_def spec_search_def Let_def)
next
  case ne: False
  show ?thesis
  proof (cases "looks_like_code bi (strip query)")
    case True
    obtain results out where c: "search_by_code bi s (strip query) = (results, out)"
      by (cases "search_by_code bi s (strip query)")
    show ?thesis
      using ne True c
      by (simp add: smart_search_def spec_search_def Let_def first_nonempty_chain)
  next
    case False
    show ?thesis
      using ne False
      by (simp add: smart_search_def spec_search_def Let_def first_nonempty_chain)
  qed
qed

theorem smart_search_precedence_witness:
  "smart_search ascii_builtins (loaded [jfk, lax, lhr]) (str '' london '') = ([lhr], [])
   \<and> smart_search ascii_builtins (loaded [jfk, lax, lhr]) (str ''  '') = ([], [])
   \<and> fst (smart_search ascii_builtins (loaded [jfk, lax, lhr]) (str ''lax'')) = [lax]"
proof -
  let ?s = "loaded [jfk, lax, lhr]"
  have 1: "spec_search ascii_builtins ?s (str '' london '') = [lhr]"
    "strip (str '' london '') = str ''london''" "\<not> looks_like_code ascii_builtins (str ''london'')"
    by code_simp+
  have 2: "spec_search ascii_builtins ?s (str ''  '') = []" "strip (str ''  '') = []"
    by code_simp+
  have 3: "spec_search ascii_builtins ?s (str ''lax'') = [lax]"
    by code_simp
  from smart_search_precedence [of ascii_builtins ?s "str '' london ''"] 1
  have a: "smart_search ascii_builtins ?s (str '' london '') = ([lhr], [])"
    by (simp add: prod_eq_iff str_def)
  from smart_search_precedence [of ascii_builtins ?s "str ''  ''"] 2
  have b: "smart_search ascii_builtins ?s (str ''  '') = ([], [])"
    by (simp add: prod_eq_iff)
  from smart_search_precedence [of ascii_builtins ?s "str ''lax''"] 3
  have c: "fst (smart_search ascii_builtins ?s (str ''lax'')) = [lax]" by simp
  from a b c show ?thesis by simp
qed
lemma close_matches_descending:
  "sorted_wrt (\<lambda>x y. ratio y w < ratio x w \<or> (ratio x w = ratio y w \<and> y \<le> x))
     (close_matches w ps n cutoff)"
  by (rule sorted_wrt_mono_rel [OF _ close_matches_sorted]) (auto simp: less_eq_prod_def)

lemma nlargest_best:
  assumes "x \<in> set xs" "x \<notin> set (nlargest n xs)"
  shows "length (nlargest n xs) = n \<and> (\<forall>y \<in> set (nlargest n xs). x \<le> y)"
proof -
  let ?l = "rev (sort xs)"
  have s: "sorted_wrt (\<lambda>p q. q \<le> p) (take n ?l @ drop n ?l)"
    by (simp add: sorted_wrt_rev)
  have "x \<in> set (take n ?l @ drop n ?l)" using assms(1) by simp
  then have "x \<in> set (take n ?l) \<or> x \<in> set (drop n ?l)" by (simp only: set_append Un_iff)
  then have d: "x \<in> set (drop n ?l)" using assms(2) by (simp add: nlargest_def)
  then have "n < length ?l" by (cases "n < length ?l") auto
  then have "length (nlargest n xs) = n" by (simp add: nlargest_def)
  moreover have "\<forall>y \<in> set (nlargest n xs). x \<le> y"
    using s d unfolding sorted_wrt_append nlargest_def by blast
  ultimately show ?thesis by blast
qed

lemma close_matches_best:
  assumes "k \<in> set ps" "passes w cutoff k" "k \<notin> set (close_matches w ps n cutoff)"
  shows "length (close_matches w ps n cutoff) = n
    \<and> (\<forall>m \<in> set (close_matches w ps n cutoff).
          ratio k w < ratio m w \<or> (ratio k w = ratio m w \<and> k \<le> m))"
proof -
  let ?L = "map (\<lambda>x. (ratio x w, x)) (filter (passes w cutoff) ps)"
  have i: "(ratio k w, k) \<in> set ?L" using assms(1,2) by auto
  have o: "(ratio k w, k) \<notin> set (nlargest n ?L)"
    using assms(3) by (force simp: close_matches_def)
  from nlargest_best [OF i o]
  have l: "length (nlargest n ?L) = n" and b: "\<forall>y \<in> set (nlargest n ?L). (ratio k w, k) \<le> y"
    by blast+
  have "ratio k w < ratio m w \<or> (ratio k w = ratio m w \<and> k \<le> m)"
    if "m \<in> set (close_matches w ps n cutoff)" for m
  proof -
    from that obtain q where q: "q \<in> set (nlargest n ?L)" "m = snd q"
      by (auto simp: close_matches_def)
    then have "q = (ratio m w, m)"
      using close_matches_scored [of q n w cutoff ps] by (metis prod.collapse)
    with b q(1) have "(ratio k w, k) \<le> (ratio m w, m)" by auto
    then show ?thesis by (auto simp: less_eq_prod_def)
  qed
  then show ?thesis using l by (simp add: close_matches_def)
qed

text \<open>
  C5 (as amended). Country lookup returns the bucket of an exact, case-sensitive match of
  the trimmed query; without one it returns the buckets of the fuzzy matches among the
  country keys, one after the other in rank order: at most three keys, each scoring at least
  0.6, and the best three, in that a key that passes the matcher's cutoff and is left out
  ranks no higher than any of the three taken.
\<close>

theorem search_by_country_buckets:
  "(\<forall>bucket. map_of (country_idx s) (strip q) = Some bucket \<longrightarrow> search_by_country s q = bucket)
   \<and> (map_of (country_idx s) (strip q) = None \<longrightarrow>
        (let ms = close_matches (strip q) (map fst (country_idx s)) 3 (3 / 5)
         in search_by_country s q = concat (map (getitem (country_idx s)) ms)
            \<and> length ms \<le> 3
            \<and> set ms \<subseteq> fst ` set (country_idx s)
            \<and> (\<forall>m \<in> set ms. 3 / 5 \<le> ratio m (strip q))
            \<and> sorted_wrt (\<lambda>x y. ratio y (strip q) < ratio x (strip q)
                  \<or> (ratio x (strip q) = ratio y (strip q) \<and> y \<le> x)) ms
            \<and> (\<forall>k \<in> fst ` set (country_idx s). passes (strip q) (3 / 5) k \<and> k \<notin> set ms \<longrightarrow>
                  length ms = 3
                  \<and> (\<forall>m \<in> set ms. ratio k (strip q) < ratio m (strip q)
                        \<or> (ratio k (strip q) = ratio m (strip q) \<and> k \<le> m)))))"
proof -
  let ?ms = "close_matches (strip q) (map fst (country_idx s)) 3 (3 / 5)"
  have "set ?ms \<subseteq> fst ` set (country_idx s)"
    using close_matches_subset [of "strip q" "map fst (country_idx s)" 3 "3 / 5"] by simp
  moreover have "\<forall>m \<in> set ?ms. 3 / 5 \<le> ratio m (strip q)"
    using close_matches_passes [of _ "strip q" "map fst (country_idx s)" 3 "3 / 5"]
    by (auto simp: passes_def)
  moreover note close_matches_descending [of "strip q" "map fst (country_idx s)" 3 "3 / 5"]
  moreover have "map_of (country_idx s) (strip q) = None \<Longrightarrow>
      search_by_country s q = concat (map (getitem (country_idx s)) ?ms)"
    by (simp add: search_by_country_def Let_def)
  moreover have "\<And>bucket. map_of (country_idx s) (strip q) = Some bucket \<Longrightarrow>
      search_by_country s q = bucket"
    by (simp add: search_by_country_def Let_def)
  moreover have "length ?ms \<le> 3" by (rule close_matches_length)
  moreover have "\<forall>k \<in> fst ` set (country_idx s). passes (strip q) (3 / 5) k \<and> k \<notin> set ?ms \<longrightarrow>
      length ?ms = 3
      \<and> (\<forall>m \<in> set ?ms. ratio k (strip q) < ratio m (strip q)
            \<or> (ratio k (strip q) = ratio m (strip q) \<and> k \<le> m))"
    using close_matches_best [of _ "map fst (country_idx s)" "strip q" "3 / 5" 3] by simp
  ultimately show ?thesis unfolding Let_def by blast
qed

theorem search_by_country_buckets_witness:
  "search_by_country (loaded [jfk, lax, lhr]) (str ''United States'') = [jfk, lax]
   \<and> search_by_country (loaded [jfk, lax, lhr]) (str ''United Kin'') = [lhr, jfk, lax]"
proof -
  let ?s = "loaded [jfk, lax, lhr]"
  have e: "map_of (country_idx ?s) (strip (str ''United States'')) = Some [jfk, lax]"
    by code_simp
  have n: "map_of (country_idx ?s) (strip (str ''United Kin'')) = None"
    by code_simp
  have f: "concat (map (getitem (country_idx ?s))
      (close_matches (strip (str ''United Kin'')) (map fst (country_idx ?s)) 3 (3 / 5)))
      = [lhr, jfk, lax]"
    by code_simp
  from search_by_country_buckets [of ?s "str ''United States''"] e
  have "search_by_country ?s (str ''United States'') = [jfk, lax]" by blast
  moreover from search_by_country_buckets [of ?s "str ''United Kin''"] n f
  have "search_by_country ?s (str ''United Kin'') = [lhr, jfk, lax]" by (simp add: Let_def)
  ultimately show ?thesis by simp
qed

text \<open>
  C5 as stated fails: the bucket of the second-ranked fuzzy match is returned too.
\<close>

theorem search_by_country_top_match_counterexample:
  "search_by_country (loaded [jfk, lax, lhr]) (str ''United Kin'') = [lhr, jfk, lax]
   \<and> spec_country_lookup (loaded [jfk, lax, lhr]) (str ''United Kin'') = [lhr]"
  by code_simp
lemma suggestion_line_key:
  "x \<in> set (all_codes s) \<Longrightarrow> map printed_code (suggestion_line s x) = [x]"
proof -
  assume "x \<in> set (all_codes s)"
  then have "map_of (iata_idx s) x \<noteq> None \<or> map_of (icao_idx s) x \<noteq> None"
    by (auto simp: all_codes_def map_of_eq_None_iff)
  then show ?thesis by (auto split: option.splits)
qed

lemma suggestion_lines:
  "set xs \<subseteq> set (all_codes s) \<Longrightarrow>
   map printed_code (concat (map (suggestion_line s) xs)) = xs"
  by (induction xs) (simp_all add: suggestion_line_key del: suggestion_line.simps)

text \<open>
  C6. When the normalised code misses both code indexes, \<open>search_by_code\<close> returns no
  match, and what it prints tells a miss with suggestions from a miss without: it prints
  nothing exactly when the matcher suggests nothing, and otherwise the heading with the code
  followed by one line for each suggestion, in the matcher's order.
\<close>

theorem search_by_code_miss_suggestions:
  assumes "code = strip (upper bi code0)"
    and "\<not> (length code = 3 \<and> code \<in> fst ` set (iata_idx s))"
    and "\<not> (length code = 4 \<and> code \<in> fst ` set (icao_idx s))"
  shows "fst (search_by_code bi s code0) = []
    \<and> (snd (search_by_code bi s code0) = []) = (close_matches code (all_codes s) 5 (3 / 5) = [])
    \<and> map printed_code (snd (search_by_code bi s code0)) =
        (if close_matches code (all_codes s) 5 (3 / 5) = [] then []
         else code # close_matches code (all_codes s) 5 (3 / 5))"
proof -
  let ?sg = "close_matches code (all_codes s) 5 (3 / 5)"
  have i: "(if length code = 3 then map_of (iata_idx s) code else None) = None"
    using assms(2) by (auto simp: map_of_eq_None_iff)
  have c: "(if length code = 4 then map_of (icao_idx s) code else None) = None"
    using assms(3) by (auto simp: map_of_eq_None_iff)
  have r: "search_by_code bi s code0 =
      ([], if ?sg \<noteq> [] then DidYouMean code # concat (map (suggestion_line s) ?sg) else [])"
    unfolding search_by_code_def Let_def assms(1) [symmetric] i c by simp
  have l: "map printed_code (concat (map (suggestion_line s) ?sg)) = ?sg"
    by (rule suggestion_lines) (rule close_matches_subset)
  show ?thesis unfolding r using l by simp
qed

theorem search_by_code_miss_suggestions_witness:
  "fst (search_by_code ascii_builtins (loaded [jfk, lax]) (str ''jfx '')) = []
   \<and> map printed_code (snd (search_by_code ascii_builtins (loaded [jfk, lax]) (str ''jfx '')))
       = [str ''JFX'', str ''JFK'']
   \<and> fst (search_by_code ascii_builtins (loaded [jfk, lax]) (str ''LHR'')) = []
   \<and> snd (search_by_code ascii_builtins (loaded [jfk, lax]) (str ''LHR'')) = []"
proof -
  let ?s = "loaded [jfk, lax]"
  have a: "str ''JFX'' = strip (upper ascii_builtins (str ''jfx ''))"
    "str ''LHR'' = strip (upper ascii_builtins (str ''LHR''))" by code_simp+
  have b: "\<not> (length (str ''JFX'') = 3 \<and> str ''JFX'' \<in> fst ` set (iata_idx ?s))"
    "\<not> (length (str ''JFX'') = 4 \<and> str ''JFX'' \<in> fst ` set (icao_idx ?s))"
    "\<not> (length (str ''LHR'') = 3 \<and> str ''LHR'' \<in> fst ` set (iata_idx ?s))"
    "\<not> (length (str ''LHR'') = 4 \<and> str ''LHR'' \<in> fst ` set (icao_idx ?s))"
    by code_simp+
  have m: "close_matches (str ''JFX'') (all_codes ?s) 5 (3 / 5) = [str ''JFK'']"
    "close_matches (str ''LHR'') (all_codes ?s) 5 (3 / 5) = []"
    by code_simp+
  from search_by_code_miss_suggestions [OF a(1) b(1,2)]
    search_by_code_miss_suggestions [OF a(2) b(3,4)] m
  show ?thesis by simp
qed

lemma matching_buckets:
  "concat (map (\<lambda>(key, bucket). if P key then bucket else []) xs) =
   concat (map snd (filter (\<lambda>(key, bucket). P key) xs))"
  by (induction xs) auto

text \<open>
  C9 (as amended). Name lookup returns every airport whose name contains the query, in store
  order; city lookup, when some city key contains the query, returns all the buckets of the
  matching keys in index order; country lookup returns the whole bucket of an exact match.
  The country listing \<open>get_country_airports\<close> returns the whole bucket of an exact match,
  and its result is always in ascending order of city name.
\<close>

theorem search_results_uncapped:
  "search_by_name bi s q =
     filter (\<lambda>a. contains (strip (lower bi q)) (lower bi (name a))) (airports s)
   \<and> (concat (map snd (filter (\<lambda>(key, bucket). contains (lower bi (strip q)) (lower bi key))
          (city_idx s))) \<noteq> [] \<longrightarrow>
        search_by_city bi s q =
          concat (map snd (filter (\<lambda>(key, bucket). contains (lower bi (strip q)) (lower bi key))
            (city_idx s))))
   \<and> (\<forall>bucket. map_of (country_idx s) (strip q) = Some bucket \<longrightarrow>
        search_by_country s q = bucket)
   \<and> (\<forall>bucket. map_of (country_idx s) c = Some bucket \<longrightarrow>
        mset (get_country_airports s c) = mset bucket)
   \<and> sorted (map city (get_country_airports s c))"
proof -
  let ?H = "concat (map snd (filter (\<lambda>(key, bucket). contains (lower bi (strip q)) (lower bi key))
          (city_idx s)))"
  have "search_by_name bi s q =
      filter (\<lambda>a. contains (strip (lower bi q)) (lower bi (name a))) (airports s)"
    by (simp add: search_by_name_def Let_def)
  moreover have "?H \<noteq> [] \<Longrightarrow> search_by_city bi s q = ?H"
  proof -
    assume ne: "?H \<noteq> []"
    have "search_by_city bi s q =
        (if ?H = []
         then concat (map (getitem (city_idx s))
                (close_matches (strip q) (map fst (city_idx s)) 10 (3 / 5)))
         else ?H)"
      by (simp only: search_by_city_def Let_def matching_buckets)
    then show ?thesis using ne by (simp only: if_False)
  qed
  moreover have "\<And>bucket. map_of (country_idx s) (strip q) = Some bucket \<Longrightarrow>
        search_by_country s q = bucket"
    by (simp add: search_by_country_def Let_def)
  moreover have "\<And>bucket. map_of (country_idx s) c = Some bucket \<Longrightarrow>
        mset (get_country_airports s c) = mset bucket"
    by (simp add: get_country_airports_def)
  moreover have "sorted (map city (get_country_airports s c))"
    by (simp add: get_country_airports_def split: option.splits list.splits)
  ultimately show ?thesis by blast
qed

theorem search_results_uncapped_witness:
  "search_by_city ascii_builtins (loaded [jfk, lax, lhr]) (str ''united'') = [jfk, lax, lhr]
   \<and> search_by_country (loaded [jfk, lax, lhr]) (str ''United States'') = [jfk, lax]
   \<and> mset (get_country_airports (loaded [jfk, lax, lhr]) (str ''United States'')) = mset [jfk, lax]
   \<and> map city (get_country_airports (loaded [jfk, lax, lhr]) (str ''United States''))
       = [str ''Los Angeles'', str ''New York'']"
proof -
  let ?s = "loaded [jfk, lax, lhr]"
  have h: "concat (map snd (filter (\<lambda>(key, bucket).
        contains (lower ascii_builtins (strip (str ''united''))) (lower ascii_builtins key))
          (city_idx ?s))) = [jfk, lax, lhr]"
    by code_simp
  have e: "map_of (country_idx ?s) (strip (str ''United States'')) = Some [jfk, lax]"
    "map_of (country_idx ?s) (str ''United States'') = Some [jfk, lax]"
    by code_simp+
  have g: "map city (get_country_airports ?s (str ''United States''))
      = [str ''Los Angeles'', str ''New York'']"
    by code_simp
  have "[jfk, lax, lhr] \<noteq> ([] :: rat airport list)" by simp
  with search_results_uncapped [of ascii_builtins ?s "str ''united''" "str ''United States''"]
  have 1: "search_by_city ascii_builtins ?s (str ''united'') = [jfk, lax, lhr]"
    unfolding h by blast
  from search_results_uncapped [of ascii_builtins ?s "str ''United States''" "str ''United States''"] e
  have 2: "search_by_country ?s (str ''United States'') = [jfk, lax]"
    "mset (get_country_airports ?s (str ''United States'')) = mset [jfk, lax]" by blast+
  from 1 2 g show ?thesis by simp
qed

text \<open>
  C9 as stated fails: the airports a city lookup returns are in index order, not sorted by
  city name.
\<close>

theorem search_by_city_unsorted_counterexample:
  "search_by_city ascii_builtins (loaded [jfk, lax]) (str ''united'') = [jfk, lax]
   \<and> map city [jfk, lax] = [str ''New York'', str ''Los Angeles'']
   \<and> \<not> sorted (map city (search_by_city ascii_builtins (loaded [jfk, lax]) (str ''united'')))"
  by code_simp

section \<open>The dataset builder\<close>








section \<open>Loading the data directory\<close>

lemma read_json_cases:
  "read_json f rest =
     (if readable f then rest (case f of Holds v \<Rightarrow> v)
      else Exits (if f = Absent then DatabaseNotFound else ErrorLoadingData) 1)"
  by (cases f) (simp_all add: read_json_def readable_def)

text \<open>
  C7 (as amended). \<open>AirportSearch()\<close> returns to its caller exactly when all five files can
  be read. Otherwise \<open>load_data\<close> ends the process with exit status 1 and no search object
  is constructed; when \<open>airport_data.json\<close> is absent the message is the one for a missing
  database.
\<close>

theorem load_data_exits_process:
  "returns_to_caller (init d) =
     (readable (airport_data_json d) \<and> readable (iata_index_json d)
      \<and> readable (icao_index_json d) \<and> readable (city_index_json d)
      \<and> readable (country_index_json d))
   \<and> (\<not> returns_to_caller (init d) \<longrightarrow> (\<exists>m. init d = Exits m 1))
   \<and> (airport_data_json d = Absent \<longrightarrow> init d = Exits DatabaseNotFound 1)"
  by (simp add: init_def load_data_def read_json_cases returns_to_caller_def readable_def)

theorem load_data_exits_process_witness:
  "init no_data = Exits DatabaseNotFound 1"
  using load_data_exits_process [of no_data] by (simp add: no_data_def)

text \<open>
  C7 as stated fails: with the files absent nothing is returned to the caller, neither a
  search object nor an error value; the process exits.
\<close>

theorem load_data_error_value_counterexample:
  "airport_data_json no_data = Absent \<and> country_index_json no_data = Absent
   \<and> \<not> returns_to_caller (init no_data)
   \<and> init no_data = Exits DatabaseNotFound 1"
  by code_simp

section \<open>Distance\<close>

lemma sin_half_diff_sq: "(sin (radians (x - y) / 2))\<^sup>2 = (sin (radians (y - x) / 2))\<^sup>2"
proof -
  have "radians (x - y) / 2 = - (radians (y - x) / 2)"
    by (simp add: radians_def field_simps)
  then show ?thesis by (simp only: sin_minus power2_minus)
qed

lemma haversine_km_sym: "haversine_km lat1 lon1 lat2 lon2 = haversine_km lat2 lon2 lat1 lon1"
  unfolding haversine_km_def Let_def
  by (simp only: sin_half_diff_sq [of lat2 lat1] sin_half_diff_sq [of lon2 lon1] mult.commute [of "cos (radians lat1)"])

text \<open>
  C10. The distance between two airports is the same in both directions, in kilometres and
  in miles.
\<close>

theorem distance_symmetric:
  "distance a b = distance b a"
  unfolding distance_def Let_def
  by (simp only: haversine_km_sym [of "latitude a" "longitude a" "latitude b" "longitude b"])

end
